theory Spec2Isabelle
  imports Complex_Main "HOL-Library.Multiset"
begin

section \<open>Numeric model\<close>

text \<open>
  The program is \<^verbatim>\<open>reliability.py\<close>: two functions, \<^verbatim>\<open>split_half\<close> and
  \<^verbatim>\<open>test_retest\<close>, over a NumPy array of shape (M, N).

  A NumPy float is modelled as a \<^typ>\<open>real option\<close>: \<open>Some v\<close> is the finite value
  \<open>v\<close> (rounding is not modelled), \<open>None\<close> stands for a non-finite value (nan or an
  infinity). NumPy does not raise on a division by zero, it yields such a value; every
  operation of the program that receives a non-finite value yields a non-finite value
  again. A division between Python scalars raises \<^verbatim>\<open>ZeroDivisionError\<close> instead.

  An array of shape (M, N) is the list of its M rows, each of length N. (An array with
  M = 0 is the empty list, whatever its N.)
\<close>

text \<open>
  The exceptions of the program: \<open>InvalidArgument\<close> is the \<^verbatim>\<open>Exception\<close> that the input checks
  of \<^verbatim>\<open>split_half\<close> raise, the others are those of Python and of the libraries.
\<close>

datatype error = InvalidArgument | ValueError | ZeroDivisionError | UnboundLocalError

type_synonym npfloat = "real option"

type_synonym matrix = "real list list"

definition n_rows :: "'a list list \<Rightarrow> nat" where
  "n_rows x = length x"

definition n_cols :: "'a list list \<Rightarrow> nat" where
  "n_cols x = (case x of [] \<Rightarrow> 0 | r # _ \<Rightarrow> length r)"

definition wf_matrix :: "'a list list \<Rightarrow> nat \<Rightarrow> nat \<Rightarrow> bool" where
  "wf_matrix x M N = (length x = M \<and> list_all (\<lambda>r. length r = N) x)"

definition np_div :: "real \<Rightarrow> real \<Rightarrow> npfloat" where
  "np_div p q = (if q = 0 then None else Some (p / q))"

definition py_div :: "real \<Rightarrow> real \<Rightarrow> error + real" where
  "py_div p q = (if q = 0 then Inl ZeroDivisionError else Inr (p / q))"

text \<open>\<^verbatim>\<open>numpy.sum(x, axis=0)\<close> and \<^verbatim>\<open>numpy.mean(x, axis=0)\<close> on an array with \<open>n\<close> columns.\<close>

definition column :: "matrix \<Rightarrow> nat \<Rightarrow> real list" where
  "column x j = map (\<lambda>r. r ! j) x"

definition sum_axis0 :: "nat \<Rightarrow> matrix \<Rightarrow> real list" where
  "sum_axis0 n x = map (\<lambda>j. sum_list (column x j)) [0..<n]"

definition mean_axis0 :: "nat \<Rightarrow> matrix \<Rightarrow> npfloat list" where
  "mean_axis0 n x = map (\<lambda>j. np_div (sum_list (column x j)) (real (length x))) [0..<n]"

text \<open>\<^verbatim>\<open>numpy.sum\<close> of a vector of NumPy floats: non-finite as soon as one entry is.\<close>

definition np_sum :: "npfloat list \<Rightarrow> npfloat" where
  "np_sum vs = map_option sum_list (those vs)"

section \<open>test_retest\<close>

definition fisher :: "matrix \<Rightarrow> nat \<Rightarrow> npfloat" where
  "fisher x n_subjects =
     (let x0 = x ! 0; x1 = x ! 1 in
      case np_div (sum_list (map2 (+) x0 x1)) (real (2 * n_subjects)) of
        None \<Rightarrow> None
      | Some m \<Rightarrow>
         (case np_div (sum_list (map (\<lambda>v. (v - m)\<^sup>2) x0) + sum_list (map (\<lambda>v. (v - m)\<^sup>2) x1))
                      (real (2 * n_subjects)) of
            None \<Rightarrow> None
          | Some var \<Rightarrow>
              np_div (sum_list (map2 (\<lambda>u v. (u - m) * (v - m)) x0 x1))
                     (real n_subjects * var)))"

definition harris :: "matrix \<Rightarrow> nat \<Rightarrow> nat \<Rightarrow> error + npfloat" where
  "harris x n_measurements n_subjects =
     (let m = np_div (sum_list (sum_axis0 n_subjects x)) (real (n_measurements * n_subjects));
          var = (case m of None \<Rightarrow> None
                 | Some m' \<Rightarrow> np_div (sum_list (sum_axis0 n_subjects (map (map (\<lambda>v. (v - m')\<^sup>2)) x)))
                                     (real (n_measurements * n_subjects)))
      in case py_div (real n_measurements) (real_of_int (int n_measurements - 1)) of
           Inl e \<Rightarrow> Inl e
         | Inr a \<Rightarrow>
            (let b = (case m of None \<Rightarrow> None
                      | Some m' \<Rightarrow>
                         (case np_sum (map (map_option (\<lambda>s. (s - m')\<^sup>2)) (mean_axis0 n_subjects x)) of
                            None \<Rightarrow> None
                          | Some t \<Rightarrow> np_div t (real n_subjects)))
             in case py_div 1 (real_of_int (int n_measurements - 1)) of
                  Inl e \<Rightarrow> Inl e
                | Inr c \<Rightarrow>
                   Inr (case (b, var) of
                          (Some b', Some var') \<Rightarrow> map_option (\<lambda>q. a * q - c) (np_div b' var')
                        | _ \<Rightarrow> None)))"

text \<open>
  Neither branch taken leaves the local \<^verbatim>\<open>r\<close> unassigned, and \<^verbatim>\<open>return r\<close> then raises
  \<^verbatim>\<open>UnboundLocalError\<close>.
\<close>

definition test_retest :: "matrix \<Rightarrow> string \<Rightarrow> error + npfloat" where
  "test_retest x mode =
     (let n_measurements = n_rows x; n_subjects = n_cols x in
      if mode = ''fisher'' \<and> n_measurements = 2 then Inr (fisher x n_subjects)
      else if mode = ''harris'' then harris x n_measurements n_subjects
      else Inl UnboundLocalError)"

subsection \<open>The quantities of the specification\<close>

text \<open>
  The pooled mean, the pooled variance, a subject's mean and the between-subject term as
  the specification words them, over all M * N entries of the array.
\<close>

definition spec_pooled_mean :: "matrix \<Rightarrow> nat \<Rightarrow> nat \<Rightarrow> real" where
  "spec_pooled_mean x M N = sum_list (concat x) / real (M * N)"

definition spec_pooled_var :: "matrix \<Rightarrow> nat \<Rightarrow> nat \<Rightarrow> real" where
  "spec_pooled_var x M N =
     sum_list (map (\<lambda>v. (v - spec_pooled_mean x M N)\<^sup>2) (concat x)) / real (M * N)"

definition spec_subject_mean :: "matrix \<Rightarrow> nat \<Rightarrow> nat \<Rightarrow> real" where
  "spec_subject_mean x M j = sum_list (map (\<lambda>r. r ! j) x) / real M"

definition spec_between :: "matrix \<Rightarrow> nat \<Rightarrow> nat \<Rightarrow> real" where
  "spec_between x M N =
     sum_list (map (\<lambda>j. (spec_subject_mean x M j - spec_pooled_mean x M N)\<^sup>2) [0..<N]) / real N"

section \<open>split_half\<close>

text \<open>
  \<^verbatim>\<open>numpy.random.shuffle(halves)\<close> permutes the rows of \<^verbatim>\<open>halves\<close> in place. The random
  source is a parameter of the model: \<open>rng i\<close> is the permutation of the row indices drawn
  in trial \<open>i\<close>, and row \<open>k\<close> of the shuffled array is row \<open>rng i ! k\<close> of the array before.
  A shuffle always draws a permutation of the M row indices, so every property of the
  loop is stated for sources with \<open>is_permutation M (rng i)\<close>.
\<close>

definition is_permutation :: "nat \<Rightarrow> nat list \<Rightarrow> bool" where
  "is_permutation M p = (mset p = mset [0..<M])"

definition shuffle :: "nat list \<Rightarrow> 'a list \<Rightarrow> 'a list" where
  "shuffle p h = map (\<lambda>k. h ! k) p"

text \<open>\<^verbatim>\<open>numpy.ones((M, N), dtype=int)\<close> and the slice assignment \<^verbatim>\<open>halves[k:, :] = v\<close>.\<close>

definition ones :: "nat \<Rightarrow> nat \<Rightarrow> int list list" where
  "ones M N = replicate M (replicate N 1)"

definition assign_rows_from :: "nat \<Rightarrow> int \<Rightarrow> int list list \<Rightarrow> int list list" where
  "assign_rows_from k v h = take k h @ map (map (\<lambda>_. v)) (drop k h)"

text \<open>
  \<^verbatim>\<open>x[halves == lbl]\<close>: the entries of \<open>x\<close> where the mask holds, in row-major order, as a
  flat vector; \<^verbatim>\<open>numpy.reshape\<close> cuts it into rows and raises \<^verbatim>\<open>ValueError\<close> when the
  sizes do not fit.
\<close>

definition mask_select :: "matrix \<Rightarrow> int list list \<Rightarrow> int \<Rightarrow> real list" where
  "mask_select x h lbl = map fst (filter (\<lambda>(v, l). l = lbl) (zip (concat x) (concat h)))"

definition reshape :: "real list \<Rightarrow> nat \<times> nat \<Rightarrow> error + matrix" where
  "reshape flat shp =
     (case shp of (r, c) \<Rightarrow>
        if length flat = r * c then Inr (map (\<lambda>k. take c (drop (k * c) flat)) [0..<r])
        else Inl ValueError)"

text \<open>
  Modelled from the spec: \<^verbatim>\<open>scipy.stats.pearsonr\<close> is a library function and not part of
  the sources; the specification names what it computes, the Pearson product-moment
  correlation coefficient of two vectors of the same length: the sum of the products of
  the deviations from the two means, over the square root of the product of the two sums
  of squared deviations. It is not a finite number where that root is zero (one of the
  vectors is constant), nor where an entry of a vector is not finite; the library rejects
  vectors of different lengths and vectors shorter than 2.
\<close>

definition pearson_coefficient :: "real list \<Rightarrow> real list \<Rightarrow> npfloat" where
  "pearson_coefficient xs ys =
     (let mx = sum_list xs / real (length xs);
          my = sum_list ys / real (length ys);
          xm = map (\<lambda>v. v - mx) xs;
          ym = map (\<lambda>v. v - my) ys
      in np_div (sum_list (map2 (*) xm ym))
                (sqrt (sum_list (map (\<lambda>v. v\<^sup>2) xm) * sum_list (map (\<lambda>v. v\<^sup>2) ym))))"

definition pearsonr :: "npfloat list \<Rightarrow> npfloat list \<Rightarrow> error + npfloat" where
  "pearsonr xs ys =
     (if length xs \<noteq> length ys \<or> length xs < 2 then Inl ValueError
      else case (those xs, those ys) of
             (Some xv, Some yv) \<Rightarrow> Inr (pearson_coefficient xv yv)
           | _ \<Rightarrow> Inr None)"

text \<open>
  \<^verbatim>\<open>numpy.mean\<close> and \<^verbatim>\<open>numpy.std\<close> of a vector: the latter is the square root of the mean
  of the squared absolute deviations from the mean.
\<close>

definition np_mean :: "npfloat list \<Rightarrow> npfloat" where
  "np_mean vs = (case those vs of None \<Rightarrow> None
                 | Some ws \<Rightarrow> np_div (sum_list ws) (real (length ws)))"

definition np_std :: "npfloat list \<Rightarrow> npfloat" where
  "np_std vs =
     (case those vs of None \<Rightarrow> None
      | Some ws \<Rightarrow>
         (case np_div (sum_list ws) (real (length ws)) of None \<Rightarrow> None
          | Some mu \<Rightarrow>
              map_option sqrt (np_div (sum_list (map (\<lambda>w. \<bar>w - mu\<bar>\<^sup>2) ws)) (real (length ws)))))"

text \<open>The state of the loop: the label array \<^verbatim>\<open>halves\<close> and the array \<^verbatim>\<open>r_\<close> of the trial samples.\<close>

record loop_state =
  halves :: "int list list"
  r_array :: "npfloat list"

definition spearman_brown :: "npfloat \<Rightarrow> npfloat" where
  "spearman_brown pearson_r =
     (case pearson_r of None \<Rightarrow> None | Some p \<Rightarrow> np_div (2 * p) (1 + p))"

definition trial ::
  "matrix \<Rightarrow> string \<Rightarrow> nat \<Rightarrow> nat \<Rightarrow> nat \<Rightarrow> (nat \<Rightarrow> nat list) \<Rightarrow> nat \<Rightarrow> loop_state
     \<Rightarrow> error + loop_state" where
  "trial x mode n_half_1 n_half_2 n_subjects rng i st =
     (let h = shuffle (rng i) (halves st) in
      case reshape (mask_select x h 1) (n_half_1, n_subjects) of
        Inl e \<Rightarrow> Inl e
      | Inr x_1 \<Rightarrow>
         (case reshape (mask_select x h 2) (n_half_2, n_subjects) of
            Inl e \<Rightarrow> Inl e
          | Inr x_2 \<Rightarrow>
             (let m_1 = mean_axis0 n_subjects x_1;
                  m_2 = mean_axis0 n_subjects x_2
              in case pearsonr m_1 m_2 of
                   Inl e \<Rightarrow> Inl e
                 | Inr pearson_r \<Rightarrow>
                     Inr \<lparr>halves = h,
                          r_array = (if mode = ''correlation'' then (r_array st)[i := pearson_r]
                                else if mode = ''spearman-brown''
                                  then (r_array st)[i := spearman_brown pearson_r]
                                else r_array st)\<rparr>)))"

fun run_trials ::
  "matrix \<Rightarrow> string \<Rightarrow> nat \<Rightarrow> nat \<Rightarrow> nat \<Rightarrow> (nat \<Rightarrow> nat list) \<Rightarrow> nat list \<Rightarrow> loop_state
     \<Rightarrow> error + loop_state" where
  "run_trials x mode n_half_1 n_half_2 n_subjects rng [] st = Inr st"
| "run_trials x mode n_half_1 n_half_2 n_subjects rng (i # is) st =
     (case trial x mode n_half_1 n_half_2 n_subjects rng i st of
        Inl e \<Rightarrow> Inl e
      | Inr st' \<Rightarrow> run_trials x mode n_half_1 n_half_2 n_subjects rng is st')"

text \<open>The loop with its initialisation: the lines from \<^verbatim>\<open>x.shape\<close> to the end of the loop.\<close>

definition trials :: "matrix \<Rightarrow> int \<Rightarrow> string \<Rightarrow> (nat \<Rightarrow> nat list) \<Rightarrow> error + loop_state" where
  "trials x n_splits mode rng =
     (let n_observations = n_rows x;
          n_subjects = n_cols x;
          n_half_1 = n_observations div 2;
          n_half_2 = n_observations - n_half_1;
          h = assign_rows_from n_half_1 2 (ones n_observations n_subjects);
          r0 = replicate (nat n_splits) (Some 0)
      in run_trials x mode n_half_1 n_half_2 n_subjects rng [0..<nat n_splits]
           \<lparr>halves = h, r_array = r0\<rparr>)"

definition allowed_modes :: "string list" where
  "allowed_modes = [''correlation'', ''spearman-brown'']"

definition split_half ::
  "matrix \<Rightarrow> int \<Rightarrow> string \<Rightarrow> (nat \<Rightarrow> nat list) \<Rightarrow> error + (npfloat \<times> npfloat)" where
  "split_half x n_splits mode rng =
     (if n_splits < 1 then Inl InvalidArgument
      else if mode \<notin> set allowed_modes then Inl InvalidArgument
      else case trials x n_splits mode rng of
             Inl e \<Rightarrow> Inl e
           | Inr st \<Rightarrow>
               (let r = np_mean (r_array st);
                    sem = (case np_std (r_array st) of None \<Rightarrow> None
                           | Some sd \<Rightarrow> np_div sd (sqrt (real_of_int n_splits)))
                in Inr (r, sem)))"

subsection \<open>The partition and the trial samples of the specification\<close>

text \<open>
  The fixed label vector of the specification, \<open>M div 2\<close> copies of the label 1 followed
  by copies of the label 2; the vector after the shuffles of the trials \<open>0, \<dots>, i\<close>; the
  rows of \<open>x\<close> that carry a label; the per-subject means of a group of rows; and the
  correlation of the two groups of trial \<open>i\<close>.
\<close>

definition labels0 :: "nat \<Rightarrow> int list" where
  "labels0 M = replicate (M div 2) 1 @ replicate (M - M div 2) 2"

fun shuffled :: "(nat \<Rightarrow> nat list) \<Rightarrow> nat \<Rightarrow> 'a list \<Rightarrow> 'a list" where
  "shuffled rng 0 h = h"
| "shuffled rng (Suc i) h = shuffle (rng i) (shuffled rng i h)"

definition trial_labels :: "(nat \<Rightarrow> nat list) \<Rightarrow> nat \<Rightarrow> nat \<Rightarrow> int list" where
  "trial_labels rng M i = shuffled rng (Suc i) (labels0 M)"

definition select_rows :: "matrix \<Rightarrow> int list \<Rightarrow> int \<Rightarrow> matrix" where
  "select_rows x ls lbl = map fst (filter (\<lambda>(r, l). l = lbl) (zip x ls))"

definition subject_means :: "nat \<Rightarrow> matrix \<Rightarrow> real list" where
  "subject_means N rows = map (\<lambda>j. sum_list (column rows j) / real (length rows)) [0..<N]"

definition trial_pearson :: "matrix \<Rightarrow> nat \<Rightarrow> nat \<Rightarrow> (nat \<Rightarrow> nat list) \<Rightarrow> nat \<Rightarrow> npfloat" where
  "trial_pearson x M N rng i =
     pearson_coefficient (subject_means N (select_rows x (trial_labels rng M i) 1))
                         (subject_means N (select_rows x (trial_labels rng M i) 2))"

definition trial_sample :: "string \<Rightarrow> npfloat \<Rightarrow> npfloat" where
  "trial_sample mode p = (if mode = ''correlation'' then p else spearman_brown p)"

definition finite_samples :: "npfloat list \<Rightarrow> bool" where
  "finite_samples vs = (None \<notin> set vs)"

definition spec_mean :: "real list \<Rightarrow> real" where
  "spec_mean ws = sum_list ws / real (length ws)"

definition spec_sem :: "real list \<Rightarrow> real" where
  "spec_sem ws =
     sqrt (sum_list (map (\<lambda>w. (w - spec_mean ws)\<^sup>2) ws) / real (length ws)) / sqrt (real (length ws))"

section \<open>Auxiliary facts\<close>

subsection \<open>Sums over rows and columns\<close>

lemma sum_axis0_Nil: "sum_list (sum_axis0 n []) = 0"
  by (induction n) (simp_all add: sum_axis0_def column_def)

lemma sum_list_nth_upt: "length r = n \<Longrightarrow> sum_list (map (\<lambda>j. r ! j) [0..<n]) = sum_list (r::real list)"
  by (metis map_nth)

lemma sum_axis0_Cons:
  "length r = n \<Longrightarrow> sum_list (sum_axis0 n (r # x)) = sum_list r + sum_list (sum_axis0 n x)"
  by (simp add: sum_axis0_def column_def sum_list_addf sum_list_nth_upt)

lemma sum_axis0_concat:
  "list_all (\<lambda>r. length r = n) x \<Longrightarrow> sum_list (sum_axis0 n x) = sum_list (concat x)"
  by (induction x) (simp_all add: sum_axis0_Nil sum_axis0_Cons)

lemma those_map_Some: "those (map (\<lambda>j. Some (f j)) xs) = Some (map f xs)"
  by (induction xs) simp_all

lemma harris_value:
  assumes wf: "wf_matrix x M N" and M: "2 \<le> M" and N: "1 \<le> N"
  shows "harris x M N =
     Inr (if spec_pooled_var x M N = 0 then None
          else Some (real M / (real M - 1) * (spec_between x M N / spec_pooled_var x M N)
                     - 1 / (real M - 1)))"
proof -
  have la: "list_all (\<lambda>r. length r = N) x" and len: "length x = M"
    using wf by (simp_all add: wf_matrix_def)
  have MN: "real (M * N) \<noteq> 0" using M N by simp
  have m: "np_div (sum_list (sum_axis0 N x)) (real (M * N)) = Some (spec_pooled_mean x M N)"
    using MN by (simp add: np_div_def sum_axis0_concat[OF la] spec_pooled_mean_def)
  have la2: "list_all (\<lambda>r. length r = N) (map (map f) x)" for f :: "real \<Rightarrow> real"
    using la by (simp add: list_all_iff)
  have v: "np_div (sum_list (sum_axis0 N (map (map (\<lambda>v. (v - spec_pooled_mean x M N)\<^sup>2)) x))) (real (M * N))
           = Some (spec_pooled_var x M N)"
    using MN by (simp add: np_div_def sum_axis0_concat[OF la2] spec_pooled_var_def map_concat)
  have mu: "map (map_option (\<lambda>s. (s - c)\<^sup>2)) (mean_axis0 N x)
            = map (\<lambda>j. Some ((spec_subject_mean x M j - c)\<^sup>2)) [0..<N]" for c
    using M len by (simp add: mean_axis0_def np_div_def spec_subject_mean_def column_def)
  have b: "np_sum (map (map_option (\<lambda>s. (s - c)\<^sup>2)) (mean_axis0 N x))
           = Some (sum_list (map (\<lambda>j. (spec_subject_mean x M j - c)\<^sup>2) [0..<N]))" for c
    by (simp add: mu np_sum_def those_map_Some)
  have M1: "real_of_int (int M - 1) = real M - 1" by simp
  have M1': "real M - 1 \<noteq> 0" using M by simp
  show ?thesis
    apply (simp only: harris_def Let_def m option.case v b M1)
    using M1' N by (simp add: py_div_def np_div_def spec_between_def)
qed

lemma map2_nth_upt:
  "length xs = n \<Longrightarrow> length ys = n \<Longrightarrow> map2 f xs ys = map (\<lambda>j. f (xs ! j) (ys ! j)) [0..<n]"
  by (rule nth_equalityI) simp_all

lemma map_nth_upt: "length xs = n \<Longrightarrow> map g xs = map (\<lambda>j. g (xs ! j)) [0..<n]"
  by (rule nth_equalityI) simp_all

lemma sum_list_upt_sum: "sum_list (map f [0..<n]) = (\<Sum>j<n. (f j :: real))"
  by (simp add: interv_sum_list_conv_sum_set_nat atLeast0LessThan)

lemma fisher_value:
  assumes l0: "length x0 = N" and l1: "length x1 = N" and N: "1 \<le> N"
    and nz: "spec_pooled_var [x0, x1] 2 N \<noteq> 0"
  shows "fisher [x0, x1] N =
     Some ((\<Sum>j<N. (x0 ! j - spec_pooled_mean [x0, x1] 2 N) * (x1 ! j - spec_pooled_mean [x0, x1] 2 N))
           / (real N * spec_pooled_var [x0, x1] 2 N))"
proof -
  let ?m = "spec_pooled_mean [x0, x1] 2 N"
  let ?v = "spec_pooled_var [x0, x1] 2 N"
  have N0: "real (2 * N) \<noteq> 0" using N by simp
  have s: "sum_list (map2 (+) x0 x1) = sum_list x0 + sum_list x1"
    by (simp add: map2_nth_upt[OF l0 l1] sum_list_addf map_nth_upt[OF l0, of "\<lambda>v. v", symmetric]
        map_nth_upt[OF l1, of "\<lambda>v. v", symmetric])
  have m: "np_div (sum_list (map2 (+) x0 x1)) (real (2 * N)) = Some ?m"
    using N0 by (simp add: s np_div_def spec_pooled_mean_def)
  have v: "np_div (sum_list (map (\<lambda>v. (v - ?m)\<^sup>2) x0) + sum_list (map (\<lambda>v. (v - ?m)\<^sup>2) x1)) (real (2 * N))
           = Some ?v"
    using N0 by (simp add: np_div_def spec_pooled_var_def)
  have nz': "real N * ?v \<noteq> 0" using nz N by simp
  have c: "sum_list (map2 (\<lambda>u v. (u - ?m) * (v - ?m)) x0 x1) = (\<Sum>j<N. (x0 ! j - ?m) * (x1 ! j - ?m))"
    by (simp add: map2_nth_upt[OF l0 l1] sum_list_upt_sum)
  show ?thesis
    apply (simp only: fisher_def Let_def nth_Cons_0 One_nat_def nth_Cons_Suc m v option.case c)
    using nz' by (simp add: np_div_def)
qed

lemma harris_fisher_algebra:
  assumes l0: "length x0 = N" and l1: "length x1 = N" and N: "1 \<le> N"
  shows "2 * spec_between [x0, x1] 2 N - spec_pooled_var [x0, x1] 2 N
       = (\<Sum>j<N. (x0 ! j - spec_pooled_mean [x0, x1] 2 N) * (x1 ! j - spec_pooled_mean [x0, x1] 2 N)) / real N"
proof -
  let ?m = "spec_pooled_mean [x0, x1] 2 N"
  have b: "spec_between [x0, x1] 2 N = (\<Sum>j<N. ((x0 ! j + x1 ! j) / 2 - ?m)\<^sup>2) / real N"
    by (simp add: spec_between_def spec_subject_mean_def sum_list_upt_sum)
  have v: "spec_pooled_var [x0, x1] 2 N = ((\<Sum>j<N. (x0 ! j - ?m)\<^sup>2) + (\<Sum>j<N. (x1 ! j - ?m)\<^sup>2)) / (2 * real N)"
    unfolding spec_pooled_var_def
    by (simp add: map_nth_upt[OF l0] map_nth_upt[OF l1] sum_list_upt_sum)
  have pt: "2 * ((a + b) / 2 - m)\<^sup>2 - ((a - m)\<^sup>2 + (b - m)\<^sup>2) / 2 = (a - m) * (b - m)" for a b m :: real
    by (simp add: power2_eq_square field_simps)
  have "2 * (\<Sum>j<N. ((x0 ! j + x1 ! j) / 2 - ?m)\<^sup>2) - ((\<Sum>j<N. (x0 ! j - ?m)\<^sup>2) + (\<Sum>j<N. (x1 ! j - ?m)\<^sup>2)) / 2
      = (\<Sum>j<N. 2 * ((x0 ! j + x1 ! j) / 2 - ?m)\<^sup>2 - ((x0 ! j - ?m)\<^sup>2 + (x1 ! j - ?m)\<^sup>2) / 2)"
    by (simp only: sum_subtractf sum_distrib_left sum.distrib sum_divide_distrib add_divide_distrib)
  also have "\<dots> = (\<Sum>j<N. (x0 ! j - ?m) * (x1 ! j - ?m))"
    by (simp only: pt)
  finally have e: "2 * (\<Sum>j<N. ((x0 ! j + x1 ! j) / 2 - ?m)\<^sup>2) - ((\<Sum>j<N. (x0 ! j - ?m)\<^sup>2) + (\<Sum>j<N. (x1 ! j - ?m)\<^sup>2)) / 2
      = (\<Sum>j<N. (x0 ! j - ?m) * (x1 ! j - ?m))" .
  have g: "2 * (A / n) - B / (2 * n) = (2 * A - B / 2) / n" for A B n :: real
    by (simp add: diff_divide_distrib)
  show ?thesis
    unfolding b v g e ..
qed

subsection \<open>Shuffles\<close>

lemma is_permutation_set: "is_permutation M p \<Longrightarrow> set p = {0..<M}"
  by (metis is_permutation_def mset_eq_setD set_upt)

lemma is_permutation_length: "is_permutation M p \<Longrightarrow> length p = M"
  by (metis is_permutation_def mset_eq_length length_upt diff_zero)

lemma length_shuffle: "is_permutation M p \<Longrightarrow> length (shuffle p h) = M"
  by (simp add: shuffle_def is_permutation_length)

lemma shuffle_map:
  assumes "is_permutation (length ls) p"
  shows "shuffle p (map f ls) = map f (shuffle p ls)"
  using is_permutation_set[OF assms] by (auto simp add: shuffle_def)

lemma mset_shuffle:
  assumes "is_permutation (length ls) p"
  shows "mset (shuffle p ls) = mset ls"
proof -
  have "mset (shuffle p ls) = image_mset (\<lambda>k. ls ! k) (mset p)"
    by (simp add: shuffle_def)
  also have "\<dots> = image_mset (\<lambda>k. ls ! k) (mset [0..<length ls])"
    using assms by (simp add: is_permutation_def)
  also have "\<dots> = mset (map (\<lambda>k. ls ! k) [0..<length ls])"
    by simp
  also have "\<dots> = mset ls"
    by (simp add: map_nth)
  finally show ?thesis .
qed

lemma shuffled_props:
  assumes "\<forall>k<i. is_permutation M (rng k)" and "length ls = M"
  shows "length (shuffled rng i ls) = M \<and> mset (shuffled rng i ls) = mset ls
         \<and> shuffled rng i (map f ls) = map f (shuffled rng i ls)"
  using assms
proof (induction i)
  case 0
  then show ?case by simp
next
  case (Suc i)
  then have ih: "length (shuffled rng i ls) = M" "mset (shuffled rng i ls) = mset ls"
      "shuffled rng i (map f ls) = map f (shuffled rng i ls)"
    by simp_all
  have p: "is_permutation (length (shuffled rng i ls)) (rng i)"
    using Suc.prems ih(1) by simp
  show ?case
    using length_shuffle[OF Suc.prems(1)[rule_format, of i], of "shuffled rng i ls"]
      mset_shuffle[OF p] shuffle_map[OF p, of f] ih by simp
qed

subsection \<open>The label array\<close>

lemma init_halves: "assign_rows_from (M div 2) 2 (ones M N) = map (replicate N) (labels0 M)"
  by (simp add: assign_rows_from_def ones_def labels0_def map_replicate_const)

lemma count_labels0:
  "length (filter (\<lambda>l. l = 1) (labels0 M)) = M div 2"
  "length (filter (\<lambda>l. l = 2) (labels0 M)) = M - M div 2"
  by (simp_all add: labels0_def)

lemma length_filter_mset: "mset ls = mset ls' \<Longrightarrow> length (filter P ls) = length (filter P ls')"
  by (metis mset_filter size_mset)

subsection \<open>Group formation\<close>

lemma zip_filter_replicate:
  "length r = n \<Longrightarrow> map fst (filter (\<lambda>(v, l). l = lbl) (zip r (replicate n (l'::int))))
     = (if l' = lbl then r else [])"
  by (simp add: zip_replicate2 filter_map comp_def)

lemma mask_select_rows:
  assumes "list_all (\<lambda>r. length r = N) x" and "length ls = length x"
  shows "mask_select x (map (replicate N) ls) lbl = concat (select_rows x ls lbl)"
  using assms
proof (induction x arbitrary: ls)
  case Nil
  then show ?case by (simp add: mask_select_def select_rows_def)
next
  case (Cons r x)
  then obtain l ls' where ls: "ls = l # ls'" and len: "length ls' = length x"
    by (cases ls) auto
  have r: "length r = N" and rest: "list_all (\<lambda>r. length r = N) x"
    using Cons.prems by simp_all
  have ih: "mask_select x (map (replicate N) ls') lbl = concat (select_rows x ls' lbl)"
    using Cons.IH[OF rest] len by simp
  show ?case
    using ih zip_filter_replicate[OF r, of lbl l]
    by (simp add: mask_select_def select_rows_def ls r zip_append)
qed

lemma take_drop_concat:
  "list_all (\<lambda>r. length r = N) rows \<Longrightarrow> k < length rows
     \<Longrightarrow> take N (drop (k * N) (concat rows)) = rows ! k"
proof (induction rows arbitrary: k)
  case Nil
  then show ?case by simp
next
  case (Cons r rows)
  show ?case
  proof (cases k)
    case 0
    with Cons.prems show ?thesis by simp
  next
    case (Suc k')
    with Cons.prems Cons.IH[of k'] show ?thesis by simp
  qed
qed

lemma length_concat_rows:
  "list_all (\<lambda>r. length r = N) rows \<Longrightarrow> length (concat rows) = length rows * N"
  by (induction rows) simp_all

lemma reshape_concat:
  assumes "list_all (\<lambda>r. length r = N) rows" and "length rows = k"
  shows "reshape (concat rows) (k, N) = Inr rows"
proof -
  have "map (\<lambda>i. take N (drop (i * N) (concat rows))) [0..<k] = rows"
    using assms by (intro nth_equalityI) (simp_all add: take_drop_concat)
  then show ?thesis
    using assms by (simp add: reshape_def length_concat_rows)
qed

lemma select_rows_wf:
  assumes "list_all (\<lambda>r. length r = N) x"
  shows "list_all (\<lambda>r. length r = N) (select_rows x ls lbl)"
proof -
  have "set (select_rows x ls lbl) \<subseteq> set x"
    by (auto simp add: select_rows_def dest: set_zip_leftD)
  then show ?thesis using assms by (auto simp add: list_all_iff)
qed

lemma length_select_rows:
  "length ls = length x \<Longrightarrow> length (select_rows x ls lbl) = length (filter (\<lambda>l. l = lbl) ls)"
proof (induction x arbitrary: ls)
  case Nil
  then show ?case by (simp add: select_rows_def)
next
  case (Cons r x)
  then obtain l ls' where "ls = l # ls'" "length ls' = length x" by (cases ls) auto
  with Cons.IH[of ls'] show ?case by (simp add: select_rows_def)
qed

lemma group_formation:
  assumes wf: "wf_matrix x M N" and len: "length ls = M"
    and cnt: "length (filter (\<lambda>l. l = lbl) ls) = k"
  shows "reshape (mask_select x (map (replicate N) ls) lbl) (k, N) = Inr (select_rows x ls lbl)"
proof -
  have la: "list_all (\<lambda>r. length r = N) x" and lx: "length ls = length x"
    using wf len by (simp_all add: wf_matrix_def)
  show ?thesis
    using reshape_concat[OF select_rows_wf[OF la, of ls lbl], of k]
          length_select_rows[OF lx, of lbl] cnt
    by (simp add: mask_select_rows[OF la lx])
qed

subsection \<open>Means and correlation\<close>

lemma those_map_Some': "those (map Some xs) = Some xs"
  by (induction xs) simp_all

lemma mean_axis0_Some:
  "rows \<noteq> [] \<Longrightarrow> mean_axis0 N rows = map Some (subject_means N rows)"
  by (simp add: mean_axis0_def subject_means_def np_div_def)

lemma pearsonr_Some:
  "length a = length b \<Longrightarrow> 2 \<le> length a
     \<Longrightarrow> pearsonr (map Some a) (map Some b) = Inr (pearson_coefficient a b)"
  by (simp add: pearsonr_def those_map_Some')

lemma wf_matrix_shape: "wf_matrix x M N \<Longrightarrow> 1 \<le> M \<Longrightarrow> n_rows x = M \<and> n_cols x = N"
  by (cases x) (auto simp add: wf_matrix_def n_rows_def n_cols_def)

lemma trial_labels_props:
  assumes "\<forall>k\<le>i. is_permutation M (rng k)"
  shows "length (trial_labels rng M i) = M"
    and "length (filter (\<lambda>l. l = 1) (trial_labels rng M i)) = M div 2"
    and "length (filter (\<lambda>l. l = 2) (trial_labels rng M i)) = M - M div 2"
proof -
  have l0: "length (labels0 M) = M" by (simp add: labels0_def)
  have p: "\<forall>k<Suc i. is_permutation M (rng k)" using assms by (simp add: less_Suc_eq_le)
  have a: "length (shuffled rng (Suc i) (labels0 M)) = M"
    and b: "mset (shuffled rng (Suc i) (labels0 M)) = mset (labels0 M)"
    using shuffled_props[OF p l0, of id] by blast+
  show "length (trial_labels rng M i) = M"
    using a by (simp only: trial_labels_def)
  show "length (filter (\<lambda>l. l = 1) (trial_labels rng M i)) = M div 2"
    using length_filter_mset[OF b, of "\<lambda>l. l = 1"] count_labels0(1)[of M]
    by (simp only: trial_labels_def)
  show "length (filter (\<lambda>l. l = 2) (trial_labels rng M i)) = M - M div 2"
    using length_filter_mset[OF b, of "\<lambda>l. l = 2"] count_labels0(2)[of M]
    by (simp only: trial_labels_def)
qed

lemma trial_step:
  assumes wf: "wf_matrix x M N" and M: "2 \<le> M" and N: "2 \<le> N"
    and mode: "mode \<in> set allowed_modes"
    and perm: "\<forall>k\<le>i. is_permutation M (rng k)"
    and h: "halves st = map (replicate N) (shuffled rng i (labels0 M))"
  shows "trial x mode (M div 2) (M - M div 2) N rng i st =
     Inr \<lparr>halves = map (replicate N) (trial_labels rng M i),
          r_array = (r_array st)[i := trial_sample mode (trial_pearson x M N rng i)]\<rparr>"
proof -
  let ?ls = "trial_labels rng M i"
  have l0: "length (labels0 M) = M" by (simp add: labels0_def)
  have pi: "\<forall>k<i. is_permutation M (rng k)" using perm by simp
  have li: "length (shuffled rng i (labels0 M)) = M"
    using shuffled_props[OF pi l0, of id] by blast
  have p: "is_permutation (length (shuffled rng i (labels0 M))) (rng i)"
    using perm li by simp
  have sh: "shuffle (rng i) (halves st) = map (replicate N) ?ls"
    by (simp add: h shuffle_map[OF p] trial_labels_def)
  note props = trial_labels_props[OF perm]
  have g1: "reshape (mask_select x (map (replicate N) ?ls) 1) (M div 2, N) = Inr (select_rows x ?ls 1)"
    by (rule group_formation[OF wf props(1) props(2)])
  have g2: "reshape (mask_select x (map (replicate N) ?ls) 2) (M - M div 2, N) = Inr (select_rows x ?ls 2)"
    by (rule group_formation[OF wf props(1) props(3)])
  have lx: "length ?ls = length x" using wf props(1) by (simp add: wf_matrix_def)
  have n1: "select_rows x ?ls 1 \<noteq> []"
    using length_select_rows[OF lx, of 1] props(2) M by auto
  have n2: "select_rows x ?ls 2 \<noteq> []"
    using length_select_rows[OF lx, of 2] props(3) M by auto
  have len: "length (subject_means N rows) = N" for rows
    by (simp add: subject_means_def)
  have pr: "pearsonr (mean_axis0 N (select_rows x ?ls 1)) (mean_axis0 N (select_rows x ?ls 2))
            = Inr (trial_pearson x M N rng i)"
    using N by (simp add: mean_axis0_Some[OF n1] mean_axis0_Some[OF n2] pearsonr_Some len
        trial_pearson_def)
  have md: "mode = ''correlation'' \<or> mode = ''spearman-brown''"
    using mode by (simp add: allowed_modes_def)
  show ?thesis
    apply (simp only: trial_def Let_def sh g1 g2 pr sum.case)
    using md by (auto simp add: trial_sample_def)
qed

lemma run_trials_append:
  "run_trials x mode a b c rng (is @ js) st =
     (case run_trials x mode a b c rng is st of
        Inl e \<Rightarrow> Inl e
      | Inr st' \<Rightarrow> run_trials x mode a b c rng js st')"
  by (induction "is" arbitrary: st) (simp_all split: sum.splits)

lemma samples_update:
  "k < n \<Longrightarrow> (map f [0..<k] @ replicate (n - k) z)[k := v]
     = map f [0..<k] @ v # replicate (n - Suc k) z"
  by (cases "n - k") (simp_all add: list_update_append Suc_diff_Suc)

lemma loop_invariant:
  assumes wf: "wf_matrix x M N" and M: "2 \<le> M" and N: "2 \<le> N"
    and mode: "mode \<in> set allowed_modes"
    and perm: "\<forall>j<n. is_permutation M (rng j)"
    and k: "k \<le> n"
  shows "run_trials x mode (M div 2) (M - M div 2) N rng [0..<k]
           \<lparr>halves = map (replicate N) (labels0 M), r_array = replicate n (Some 0)\<rparr>
       = Inr \<lparr>halves = map (replicate N) (shuffled rng k (labels0 M)),
              r_array = map (\<lambda>i. trial_sample mode (trial_pearson x M N rng i)) [0..<k]
                        @ replicate (n - k) (Some 0)\<rparr>"
  using k
proof (induction k)
  case 0
  then show ?case by simp
next
  case (Suc k)
  have pk: "\<forall>j\<le>k. is_permutation M (rng j)" using perm Suc.prems by simp
  have kn: "k < n" using Suc.prems by simp
  let ?st = "\<lparr>halves = map (replicate N) (shuffled rng k (labels0 M)),
              r_array = map (\<lambda>i. trial_sample mode (trial_pearson x M N rng i)) [0..<k]
                        @ replicate (n - k) (Some 0)\<rparr>"
  have ih: "run_trials x mode (M div 2) (M - M div 2) N rng [0..<k]
           \<lparr>halves = map (replicate N) (labels0 M), r_array = replicate n (Some 0)\<rparr> = Inr ?st"
    using Suc by simp
  have st: "trial x mode (M div 2) (M - M div 2) N rng k ?st =
     Inr \<lparr>halves = map (replicate N) (trial_labels rng M k),
          r_array = (r_array ?st)[k := trial_sample mode (trial_pearson x M N rng k)]\<rparr>"
    by (rule trial_step[OF wf M N mode pk]) simp
  show ?case
    by (simp add: run_trials_append ih st samples_update[OF kn] trial_labels_def)
qed

lemma trials_result:
  assumes wf: "wf_matrix x M N" and M: "2 \<le> M" and N: "2 \<le> N"
    and mode: "mode \<in> set allowed_modes"
    and perm: "\<forall>j<nat n_splits. is_permutation M (rng j)"
  shows "trials x n_splits mode rng =
     Inr \<lparr>halves = map (replicate N) (shuffled rng (nat n_splits) (labels0 M)),
          r_array = map (\<lambda>i. trial_sample mode (trial_pearson x M N rng i)) [0..<nat n_splits]\<rparr>"
proof -
  have sh: "n_rows x = M" "n_cols x = N" using wf_matrix_shape[OF wf] M by simp_all
  show ?thesis
    unfolding trials_def Let_def sh init_halves
    using loop_invariant[OF wf M N mode perm order_refl] by simp
qed

lemma trial_labels_set:
  assumes "\<forall>k\<le>i. is_permutation M (rng k)"
  shows "set (trial_labels rng M i) \<subseteq> {1, 2}"
proof -
  have l0: "length (labels0 M) = M" by (simp add: labels0_def)
  have p: "\<forall>k<Suc i. is_permutation M (rng k)" using assms by (simp add: less_Suc_eq_le)
  have "mset (shuffled rng (Suc i) (labels0 M)) = mset (labels0 M)"
    using shuffled_props[OF p l0, of id] by blast
  then have "set (trial_labels rng M i) = set (labels0 M)"
    unfolding trial_labels_def by (rule mset_eq_setD)
  then show ?thesis by (auto simp add: labels0_def)
qed

subsection \<open>The correlation coefficient is bounded\<close>

lemma sum_square_bound:
  fixes f g :: "nat \<Rightarrow> real"
  shows "(\<Sum>j<n. f j * g j)\<^sup>2 \<le> (\<Sum>j<n. (f j)\<^sup>2) * (\<Sum>j<n. (g j)\<^sup>2)"
proof -
  define A where "A = (\<Sum>j<n. (f j)\<^sup>2)"
  define B where "B = (\<Sum>j<n. (g j)\<^sup>2)"
  define S where "S = (\<Sum>j<n. f j * g j)"
  have A0: "0 \<le> A" by (simp add: A_def sum_nonneg)
  show ?thesis
  proof (cases "A = 0")
    case True
    then have "\<forall>j\<in>{..<n}. (f j)\<^sup>2 = 0"
      unfolding A_def by (subst (asm) sum_nonneg_eq_0_iff) simp_all
    then have "S = 0" by (simp add: S_def)
    then show ?thesis using True by (simp add: A_def S_def)
  next
    case False
    then have Apos: "0 < A" using A0 by simp
    have lin: "(\<Sum>j<n. c * (g j)\<^sup>2 - d * (f j * g j) + e * (f j)\<^sup>2) = c * B - d * S + e * A"
      for c d e :: real
      by (simp add: A_def B_def S_def sum.distrib sum_subtractf sum_distrib_left)
    have "0 \<le> (\<Sum>j<n. (A * g j - S * f j)\<^sup>2)" by (simp add: sum_nonneg)
    also have "\<dots> = (\<Sum>j<n. A\<^sup>2 * (g j)\<^sup>2 - (2 * A * S) * (f j * g j) + S\<^sup>2 * (f j)\<^sup>2)"
      by (rule sum.cong) (simp_all add: power2_eq_square algebra_simps)
    also have "\<dots> = A\<^sup>2 * B - (2 * A * S) * S + S\<^sup>2 * A" by (rule lin)
    also have "\<dots> = A * (A * B - S\<^sup>2)" by (simp add: power2_eq_square algebra_simps)
    finally have "0 \<le> A * (A * B - S\<^sup>2)" .
    then have "0 \<le> A * B - S\<^sup>2" using Apos by (simp add: zero_le_mult_iff)
    then show ?thesis by (simp add: A_def B_def S_def)
  qed
qed

lemma pearson_bound:
  assumes len: "length xs = length ys" and p: "pearson_coefficient xs ys = Some p"
  shows "- 1 \<le> p \<and> p \<le> 1"
proof -
  define n where "n = length xs"
  define f where "f = (\<lambda>j. xs ! j - sum_list xs / real (length xs))"
  define g where "g = (\<lambda>j. ys ! j - sum_list ys / real (length ys))"
  define S where "S = (\<Sum>j<n. f j * g j)"
  define D where "D = sqrt ((\<Sum>j<n. (f j)\<^sup>2) * (\<Sum>j<n. (g j)\<^sup>2))"
  have lx: "length xs = n" and ly: "length ys = n" using len by (simp_all add: n_def)
  have num: "sum_list (map2 (*) (map (\<lambda>v. v - sum_list xs / real (length xs)) xs)
                               (map (\<lambda>v. v - sum_list ys / real (length ys)) ys)) = S"
    by (simp add: map2_nth_upt[of _ n] lx ly sum_list_upt_sum S_def f_def g_def)
  have dx: "sum_list (map (\<lambda>v. v\<^sup>2) (map (\<lambda>v. v - sum_list xs / real (length xs)) xs)) = (\<Sum>j<n. (f j)\<^sup>2)"
    by (simp add: map_nth_upt[OF lx] sum_list_upt_sum f_def comp_def)
  have dy: "sum_list (map (\<lambda>v. v\<^sup>2) (map (\<lambda>v. v - sum_list ys / real (length ys)) ys)) = (\<Sum>j<n. (g j)\<^sup>2)"
    by (simp add: map_nth_upt[OF ly] sum_list_upt_sum g_def comp_def)
  have pc: "pearson_coefficient xs ys = np_div S D"
    by (simp only: pearson_coefficient_def Let_def num dx dy D_def)
  have D0: "D \<noteq> 0" and pv: "p = S / D"
    using p pc by (auto simp add: np_div_def split: if_splits)
  have "0 \<le> D" by (simp add: D_def mult_nonneg_nonneg sum_nonneg)
  then have Dpos: "0 < D" using D0 by simp
  have sq: "S\<^sup>2 \<le> (\<Sum>j<n. (f j)\<^sup>2) * (\<Sum>j<n. (g j)\<^sup>2)"
    unfolding S_def by (rule sum_square_bound)
  have "\<bar>S\<bar> \<le> D"
    unfolding D_def using sq by (metis real_sqrt_abs real_sqrt_le_iff)
  then show ?thesis using Dpos by (simp add: pv field_simps abs_le_iff)
qed

subsection \<open>Mean and standard error of the samples\<close>

lemma those_Some_map: "those vs = Some ws \<Longrightarrow> vs = map Some ws"
proof (induction vs arbitrary: ws)
  case Nil
  then show ?case by simp
next
  case (Cons v vs)
  then show ?case by (cases v; cases "those vs") auto
qed

lemma those_None_iff: "those vs = None \<longleftrightarrow> None \<in> set vs"
proof (induction vs)
  case Nil
  then show ?case by simp
next
  case (Cons v vs)
  then show ?case by (cases v; cases "those vs") auto
qed

lemma np_mean_std_Some:
  assumes "those vs = Some ws" and "ws \<noteq> []"
  shows "np_mean vs = Some (spec_mean ws)"
    and "np_std vs = Some (sqrt (sum_list (map (\<lambda>w. (w - spec_mean ws)\<^sup>2) ws) / real (length ws)))"
  using assms by (simp_all add: np_mean_def np_std_def np_div_def spec_mean_def)

lemma np_mean_std_None:
  assumes "those vs = None"
  shows "np_mean vs = None" and "np_std vs = None"
  using assms by (simp_all add: np_mean_def np_std_def)

lemma sum_list_bounds:
  "\<forall>w\<in>set ws. - 1 \<le> w \<and> w \<le> (1::real)
     \<Longrightarrow> - real (length ws) \<le> sum_list ws \<and> sum_list ws \<le> real (length ws)"
  by (induction ws) auto

lemma spec_mean_bounds:
  assumes "\<forall>w\<in>set ws. - 1 \<le> w \<and> w \<le> (1::real)" and "ws \<noteq> []"
  shows "- 1 \<le> spec_mean ws \<and> spec_mean ws \<le> 1"
  using sum_list_bounds[OF assms(1)] assms(2)
  by (simp add: spec_mean_def field_simps)

lemma split_half_result:
  assumes wf: "wf_matrix x M N" and M: "2 \<le> M" and N: "2 \<le> N"
    and n: "1 \<le> n_splits"
    and mode: "mode = ''correlation'' \<or> mode = ''spearman-brown''"
    and perm: "\<forall>j<nat n_splits. is_permutation M (rng j)"
    and st: "trials x n_splits mode rng = Inr st"
  shows "length (r_array st) = nat n_splits"
    and "those (r_array st) = Some ws \<Longrightarrow>
          length ws = nat n_splits \<and>
          split_half x n_splits mode rng = Inr (Some (spec_mean ws), Some (spec_sem ws))"
    and "those (r_array st) = None \<Longrightarrow> split_half x n_splits mode rng = Inr (None, None)"
proof -
  have md: "mode \<in> set allowed_modes" using mode by (auto simp add: allowed_modes_def)
  show l: "length (r_array st) = nat n_splits"
    using trials_result[OF wf M N md perm] st by auto
  have sh: "split_half x n_splits mode rng =
        Inr (np_mean (r_array st),
             case np_std (r_array st) of None \<Rightarrow> None
             | Some sd \<Rightarrow> np_div sd (sqrt (real_of_int n_splits)))"
    using n md by (simp add: split_half_def st)
  {
    assume t: "those (r_array st) = Some ws"
    have lw: "length ws = nat n_splits"
      using those_Some_map[OF t] l by (metis length_map)
    then have ne: "ws \<noteq> []" using n by auto
    have rn: "real (nat n_splits) = real_of_int n_splits" using n by simp
    have sq: "sqrt (real_of_int n_splits) \<noteq> 0" using n by simp
    show "length ws = nat n_splits \<and>
          split_half x n_splits mode rng = Inr (Some (spec_mean ws), Some (spec_sem ws))"
      using lw sq by (simp add: sh np_mean_std_Some[OF t ne] np_div_def spec_sem_def rn del: of_nat_nat)
  }
  {
    assume t: "those (r_array st) = None"
    show "split_half x n_splits mode rng = Inr (None, None)"
      by (simp add: sh np_mean_std_None[OF t])
  }
qed

lemma trial_pearson_bound:
  "trial_pearson x M N rng i = Some p \<Longrightarrow> - 1 \<le> p \<and> p \<le> 1"
proof -
  assume a: "trial_pearson x M N rng i = Some p"
  have len: "length (subject_means N a) = length (subject_means N b)" for a b
    by (simp add: subject_means_def)
  show ?thesis
    using pearson_bound[OF len] a unfolding trial_pearson_def by blast
qed

text \<open>The equations that evaluate a call on a literal array.\<close>

lemmas eval_simps = split_half_def trials_def trial_def allowed_modes_def n_rows_def n_cols_def
  assign_rows_from_def ones_def shuffle_def mask_select_def reshape_def mean_axis0_def column_def
  np_div_def pearsonr_def pearson_coefficient_def np_mean_def np_std_def spearman_brown_def
  upt_conv_Cons power2_eq_square Let_def wf_matrix_def is_permutation_def eval_nat_numeral

section \<open>The claims\<close>

text \<open>
  C1. For an array with M \<ge> 2 rows and N \<ge> 1 columns, \<^verbatim>\<open>test_retest(x, mode='harris')\<close>
  returns a * (b / var) - c, with m the sum of all entries over M * N, var the sum of the
  squared deviations from m over M * N, a = M / (M - 1), b the sum over the subjects of
  (subject mean - m)^2 over N, and c = 1 / (M - 1). Where var is zero the quotient b / var
  of the formula is not a finite number, and neither is the returned value.
\<close>

theorem harris_formula:
  assumes "wf_matrix x M N" and "2 \<le> M" and "1 \<le> N"
  shows "test_retest x ''harris'' =
     Inr (if spec_pooled_var x M N = 0 then None
          else Some (real M / (real M - 1) * (spec_between x M N / spec_pooled_var x M N)
                     - 1 / (real M - 1)))"
proof -
  have "n_rows x = M" using assms by (simp add: wf_matrix_def n_rows_def)
  moreover have "n_cols x = N" using assms by (cases x) (auto simp add: wf_matrix_def n_cols_def)
  ultimately show ?thesis using harris_value[OF assms] by (simp add: test_retest_def)
qed

theorem harris_formula_witness:
  "wf_matrix [[10::real, 12, 14], [11, 13, 16]] 2 3 \<and> (2::nat) \<le> 2 \<and> (1::nat) \<le> 3 \<and>
   test_retest [[10, 12, 14], [11, 13, 16]] ''harris'' = Inr (Some (26 / 35))"
  using harris_formula[of "[[10, 12, 14], [11, 13, 16]]" 2 3]
  by (simp add: wf_matrix_def spec_pooled_var_def spec_pooled_mean_def spec_between_def
      spec_subject_mean_def power2_eq_square upt_conv_Cons)

text \<open>
  C2. In a valid call of \<^verbatim>\<open>split_half\<close> (M \<ge> 2, N \<ge> 2, n_splits \<ge> 1, a recognised mode)
  the loop ends without an error, and the sample stored for trial \<open>i\<close> comes from the Pearson
  correlation r of the per-subject means of the two groups of rows of that trial's
  partition: it is r itself in mode 'correlation' and 2 * r / (1 + r) in mode
  'spearman-brown'. Where r is not a finite number, or the quotient is not, neither is
  the sample.
\<close>

theorem trial_sample_formula:
  assumes "wf_matrix x M N" and "2 \<le> M" and "2 \<le> N" and "1 \<le> n_splits"
    and "mode = ''correlation'' \<or> mode = ''spearman-brown''"
    and "\<forall>j<nat n_splits. is_permutation M (rng j)"
    and "i < nat n_splits"
  shows "\<exists>st. trials x n_splits mode rng = Inr st \<and>
           r_array st ! i =
             (case trial_pearson x M N rng i of
                None \<Rightarrow> None
              | Some r \<Rightarrow> if mode = ''correlation'' then Some r
                          else if 1 + r = 0 then None else Some (2 * r / (1 + r)))"
proof -
  have md: "mode \<in> set allowed_modes" using assms(5) by (auto simp add: allowed_modes_def)
  have "trial_sample mode p =
          (case p of None \<Rightarrow> None
           | Some r \<Rightarrow> if mode = ''correlation'' then Some r
                       else if 1 + r = 0 then None else Some (2 * r / (1 + r)))" for p
    by (simp add: trial_sample_def spearman_brown_def np_div_def split: option.splits)
  then show ?thesis
    using trials_result[OF assms(1-3) md assms(6)] assms(7) by simp
qed

theorem trial_sample_formula_witness:
  "wf_matrix [[2::real, 4, 7], [3, 5, 1]] 2 3 \<and> (2::nat) \<le> 2 \<and> (2::nat) \<le> 3 \<and> (1::int) \<le> 2 \<and>
   is_permutation 2 [1, 0] \<and> (1::nat) < nat 2 \<and>
   (\<exists>st. trials [[2, 4, 7], [3, 5, 1]] 2 ''spearman-brown'' (\<lambda>_. [1, 0]) = Inr st \<and>
         r_array st ! 1 =
           (case trial_pearson [[2, 4, 7], [3, 5, 1]] 2 3 (\<lambda>_. [1, 0]) 1 of
              None \<Rightarrow> None
            | Some r \<Rightarrow> if 1 + r = 0 then None else Some (2 * r / (1 + r))))"
  using trial_sample_formula[of "[[2, 4, 7], [3, 5, 1]]" 2 3 2 "''spearman-brown''" "\<lambda>_. [1, 0]" 1]
  by (simp add: wf_matrix_def is_permutation_def upt_conv_Cons cong: option.case_cong)

text \<open>
  C3. A valid call of \<^verbatim>\<open>split_half\<close> returns the pair (r, sem), with r the arithmetic mean
  of the n_splits trial samples and sem their population standard deviation (divisor
  n_splits) over the square root of n_splits. Where a sample is not a finite number,
  neither component of the pair is.
\<close>

theorem split_half_mean_sem:
  assumes "wf_matrix x M N" and "2 \<le> M" and "2 \<le> N" and "1 \<le> n_splits"
    and "mode = ''correlation'' \<or> mode = ''spearman-brown''"
    and "\<forall>j<nat n_splits. is_permutation M (rng j)"
  shows "\<exists>st. trials x n_splits mode rng = Inr st \<and> length (r_array st) = nat n_splits \<and>
           (case those (r_array st) of
              Some ws \<Rightarrow>
                split_half x n_splits mode rng =
                  Inr (Some (sum_list ws / real_of_int n_splits),
                       Some (sqrt (sum_list (map (\<lambda>w. (w - sum_list ws / real_of_int n_splits)\<^sup>2) ws)
                                   / real_of_int n_splits)
                             / sqrt (real_of_int n_splits)))
            | None \<Rightarrow> split_half x n_splits mode rng = Inr (None, None))"
proof -
  have md: "mode \<in> set allowed_modes" using assms(5) by (auto simp add: allowed_modes_def)
  obtain st where st: "trials x n_splits mode rng = Inr st"
    using trials_result[OF assms(1-3) md assms(6)] by blast
  note res = split_half_result[OF assms st]
  have rn: "real (nat n_splits) = real_of_int n_splits" using assms(4) by simp
  show ?thesis
  proof (cases "those (r_array st)")
    case None
    then show ?thesis using st res(1) res(3) by simp
  next
    case (Some ws)
    then show ?thesis
      using st res(1) res(2)[OF Some] by (simp add: spec_mean_def spec_sem_def rn del: of_nat_nat)
  qed
qed

theorem split_half_mean_sem_witness:
  "wf_matrix [[2::real, 4], [3, 5]] 2 2 \<and> (2::nat) \<le> 2 \<and> (1::int) \<le> 2 \<and>
   is_permutation 2 [1, 0] \<and>
   split_half [[2, 4], [3, 5]] 2 ''correlation'' (\<lambda>_. [1, 0]) = Inr (Some 1, Some 0)"
  using split_half_mean_sem[of "[[2, 4], [3, 5]]" 2 2 2 "''correlation''" "\<lambda>_. [1, 0]"]
  by (simp add: eval_simps)

text \<open>
  C4. After the shuffle of trial \<open>i\<close> the label array has the same label in every column of
  a row; its rows carry the labels of the shuffled label vector, \<open>M div 2\<close> of them the
  label 1 and \<open>M - M div 2\<close> the label 2; and the two groups formed by mask and reshape
  are the rows of \<open>x\<close> that carry the label, in their order, as arrays with N columns. In
  a valid call this array is the one the loop holds after trial \<open>i\<close>.
\<close>

theorem partition_invariant:
  assumes wf: "wf_matrix x M N" and perm: "\<forall>j\<le>i. is_permutation M (rng j)"
  shows "shuffled rng (Suc i) (assign_rows_from (M div 2) 2 (ones M N))
           = map (replicate N) (trial_labels rng M i) \<and>
         length (trial_labels rng M i) = M \<and>
         set (trial_labels rng M i) \<subseteq> {1, 2} \<and>
         length (filter (\<lambda>l. l = 1) (trial_labels rng M i)) = M div 2 \<and>
         length (filter (\<lambda>l. l = 2) (trial_labels rng M i)) = M - M div 2 \<and>
         reshape (mask_select x (map (replicate N) (trial_labels rng M i)) 1) (M div 2, N)
           = Inr (select_rows x (trial_labels rng M i) 1) \<and>
         reshape (mask_select x (map (replicate N) (trial_labels rng M i)) 2) (M - M div 2, N)
           = Inr (select_rows x (trial_labels rng M i) 2) \<and>
         wf_matrix (select_rows x (trial_labels rng M i) 1) (M div 2) N \<and>
         wf_matrix (select_rows x (trial_labels rng M i) 2) (M - M div 2) N \<and>
         (2 \<le> M \<and> 2 \<le> N \<and> (mode = ''correlation'' \<or> mode = ''spearman-brown'') \<and> i < n \<and>
          (\<forall>j<n. is_permutation M (rng j)) \<longrightarrow>
            (\<exists>st. run_trials x mode (M div 2) (M - M div 2) N rng [0..<Suc i]
                    \<lparr>halves = assign_rows_from (M div 2) 2 (ones M N),
                     r_array = replicate n (Some 0)\<rparr> = Inr st \<and>
                  halves st = map (replicate N) (trial_labels rng M i)))"
proof -
  let ?ls = "trial_labels rng M i"
  have l0: "length (labels0 M) = M" by (simp add: labels0_def)
  have p: "\<forall>k<Suc i. is_permutation M (rng k)" using perm by (simp add: less_Suc_eq_le)
  have h: "shuffled rng (Suc i) (assign_rows_from (M div 2) 2 (ones M N)) = map (replicate N) ?ls"
    using shuffled_props[OF p l0, of "replicate N"] by (simp only: init_halves trial_labels_def)
  note props = trial_labels_props[OF perm]
  have la: "list_all (\<lambda>r. length r = N) x" and lx: "length ?ls = length x"
    using wf props(1) by (simp_all add: wf_matrix_def)
  have w: "wf_matrix (select_rows x ?ls lbl) (length (filter (\<lambda>l. l = lbl) ?ls)) N" for lbl
    using select_rows_wf[OF la, of ?ls lbl] length_select_rows[OF lx, of lbl]
    by (simp add: wf_matrix_def)
  have loop: "\<exists>st. run_trials x mode (M div 2) (M - M div 2) N rng [0..<Suc i]
                    \<lparr>halves = assign_rows_from (M div 2) 2 (ones M N),
                     r_array = replicate n (Some 0)\<rparr> = Inr st \<and>
                  halves st = map (replicate N) ?ls"
    if v: "2 \<le> M \<and> 2 \<le> N \<and> (mode = ''correlation'' \<or> mode = ''spearman-brown'') \<and> i < n \<and>
          (\<forall>j<n. is_permutation M (rng j))"
  proof -
    have md: "mode \<in> set allowed_modes" using v by (auto simp add: allowed_modes_def)
    have k: "Suc i \<le> n" using v by simp
    have M2: "2 \<le> M" and N2: "2 \<le> N" and pn: "\<forall>j<n. is_permutation M (rng j)"
      using v by simp_all
    show ?thesis
      using loop_invariant[OF wf M2 N2 md pn k] by (simp add: init_halves trial_labels_def)
  qed
  show ?thesis
    using h props trial_labels_set[OF perm]
      group_formation[OF wf props(1) props(2)] group_formation[OF wf props(1) props(3)]
      w[of 1] w[of 2] loop
    by (simp only: simp_thms) blast
qed

theorem partition_invariant_witness:
  "wf_matrix [[2::real, 4], [3, 5], [7, 1]] 3 2 \<and>
   is_permutation 3 [2, 0, 1] \<and>
   trial_labels (\<lambda>_. [2, 0, 1]) 3 0 = [2, 1, 2] \<and>
   shuffled (\<lambda>_. [2, 0, 1]) (Suc 0) (assign_rows_from (3 div 2) 2 (ones 3 2))
     = [[2, 2], [1, 1], [2, 2]] \<and>
   reshape (mask_select [[2, 4], [3, 5], [7, 1]] [[2, 2], [1, 1], [2, 2]] 1) (1, 2) = Inr [[3, 5]] \<and>
   reshape (mask_select [[2, 4], [3, 5], [7, 1]] [[2, 2], [1, 1], [2, 2]] 2) (2, 2)
     = Inr [[2, 4], [7, 1]] \<and>
   (\<exists>st. run_trials [[2, 4], [3, 5], [7, 1]] ''correlation'' (3 div 2) (3 - 3 div 2) 2
           (\<lambda>_. [2, 0, 1]) [0..<Suc 0]
           \<lparr>halves = assign_rows_from (3 div 2) 2 (ones 3 2), r_array = replicate 1 (Some 0)\<rparr>
         = Inr st \<and> halves st = [[2, 2], [1, 1], [2, 2]])"
proof -
  have wf: "wf_matrix [[2, 4], [3, 5], [7, 1::real]] 3 2" by (simp add: wf_matrix_def)
  have p: "\<forall>j\<le>0. is_permutation 3 ((\<lambda>_. [2, 0, 1]) j)"
    by (simp add: is_permutation_def upt_conv_Cons)
  have "labels0 3 = replicate 1 1 @ replicate 2 2" by (simp add: labels0_def)
  then have l0: "labels0 3 = [1, 2, 2]" by (simp add: numeral_2_eq_2)
  have rep: "replicate 2 l = [l, l]" for l :: int by (simp add: numeral_2_eq_2)
  show ?thesis
    using partition_invariant[OF wf p, of "''correlation''" 1]
    by (simp add: wf_matrix_def is_permutation_def upt_conv_Cons trial_labels_def l0 shuffle_def
        mask_select_def reshape_def rep)
qed

text \<open>
  C5. \<^verbatim>\<open>split_half\<close> raises its argument error whenever n_splits < 1 and whenever the mode
  is neither 'correlation' nor 'spearman-brown', whatever the array and the random
  source are: nothing is computed and no pair is returned.
\<close>

theorem split_half_validation:
  assumes "n_splits < 1 \<or> (mode \<noteq> ''correlation'' \<and> mode \<noteq> ''spearman-brown'')"
  shows "split_half x n_splits mode rng = Inl InvalidArgument"
  using assms by (auto simp add: split_half_def allowed_modes_def)

theorem split_half_validation_witness:
  "(0::int) < 1 \<and> ''bogus'' \<noteq> ''correlation'' \<and> ''bogus'' \<noteq> ''spearman-brown'' \<and>
   split_half [[2, 4], [3, 5]] 0 ''correlation'' (\<lambda>_. [1, 0]) = Inl InvalidArgument \<and>
   split_half [[2, 4], [3, 5]] 100 ''bogus'' (\<lambda>_. [1, 0]) = Inl InvalidArgument"
  using split_half_validation[of 0 "''correlation''" "[[2, 4], [3, 5]]" "\<lambda>_. [1, 0]"]
    split_half_validation[of 100 "''bogus''" "[[2, 4], [3, 5]]" "\<lambda>_. [1, 0]"]
  by simp

text \<open>
  C6 (as amended). \<^verbatim>\<open>test_retest\<close> does not validate its mode. With a mode other than
  'fisher' and 'harris', and with mode 'fisher' on an array whose row count is not 2,
  neither branch assigns \<^verbatim>\<open>r\<close>; the function raises no argument error and returns no
  value: its \<^verbatim>\<open>return r\<close> raises UnboundLocalError.
\<close>

theorem test_retest_unassigned:
  assumes "mode \<noteq> ''harris''" and "mode \<noteq> ''fisher'' \<or> n_rows x \<noteq> 2"
  shows "test_retest x mode = Inl UnboundLocalError"
  using assms by (auto simp add: test_retest_def)

theorem test_retest_unassigned_witness:
  "''fisher'' \<noteq> ''harris'' \<and> n_rows [[1, 2], [3, 4], [5, 6::real]] \<noteq> 2 \<and>
   test_retest [[1, 2], [3, 4], [5, 6]] ''fisher'' = Inl UnboundLocalError"
  using test_retest_unassigned[of "''fisher''" "[[1, 2], [3, 4], [5, 6]]"]
  by (simp add: n_rows_def)

text \<open>
  The claim C6 as first stated has the call end silently, with no error raised. On a
  2 x 3 array and the mode 'bogus' the call raises.
\<close>

theorem test_retest_silent_counterexample:
  "test_retest [[10, 12, 14], [11, 13, 16]] ''bogus'' = Inl UnboundLocalError"
  by (simp add: test_retest_def)

text \<open>
  C7. For a 2 x N array with N \<ge> 1 and a nonzero pooled variance, the modes 'harris' and
  'fisher' return the same number.
\<close>

theorem harris_eq_fisher:
  assumes wf: "wf_matrix x 2 N" and N: "1 \<le> N" and nz: "spec_pooled_var x 2 N \<noteq> 0"
  shows "\<exists>r. test_retest x ''harris'' = Inr (Some r) \<and> test_retest x ''fisher'' = Inr (Some r)"
proof -
  from wf obtain x0 x1 where x: "x = [x0, x1]" and l0: "length x0 = N" and l1: "length x1 = N"
    by (cases x; cases "tl x") (auto simp add: wf_matrix_def)
  have rows: "n_rows x = 2" "n_cols x = N" by (simp_all add: x n_rows_def n_cols_def l0)
  let ?v = "spec_pooled_var x 2 N"
  have h: "harris x 2 N = Inr (Some (2 * (spec_between x 2 N / ?v) - 1))"
    using harris_value[OF wf _ N] nz by simp
  have f: "fisher x N = Some ((2 * spec_between x 2 N - ?v) / ?v)"
    using fisher_value[OF l0 l1 N nz[unfolded x]] harris_fisher_algebra[OF l0 l1 N] N
    by (simp add: x)
  have "2 * (spec_between x 2 N / ?v) - 1 = (2 * spec_between x 2 N - ?v) / ?v"
    using nz by (simp add: field_simps)
  then show ?thesis
    using h f rows by (simp add: test_retest_def)
qed

theorem harris_eq_fisher_witness:
  "wf_matrix [[10::real, 12, 14], [11, 13, 16]] 2 3 \<and> (1::nat) \<le> 3 \<and>
   spec_pooled_var [[10, 12, 14], [11, 13, 16]] 2 3 \<noteq> 0 \<and>
   (\<exists>r. test_retest [[10, 12, 14], [11, 13, 16]] ''harris'' = Inr (Some r) \<and>
        test_retest [[10, 12, 14], [11, 13, 16]] ''fisher'' = Inr (Some r))"
  using harris_eq_fisher[of "[[10, 12, 14], [11, 13, 16]]" 3]
  by (simp add: wf_matrix_def spec_pooled_var_def spec_pooled_mean_def power2_eq_square)

text \<open>
  C8 (as amended). A valid call of \<^verbatim>\<open>split_half\<close>, in either mode, returns a pair. When
  every trial sample is a finite number, the returned sem is a finite number and
  sem \<ge> 0; otherwise neither component of the pair is a finite number.
\<close>

theorem sem_nonnegative:
  assumes "wf_matrix x M N" and "2 \<le> M" and "2 \<le> N" and "1 \<le> n_splits"
    and "mode = ''correlation'' \<or> mode = ''spearman-brown''"
    and "\<forall>j<nat n_splits. is_permutation M (rng j)"
  shows "\<exists>st. trials x n_splits mode rng = Inr st \<and>
           (if finite_samples (r_array st)
            then \<exists>r sem. split_half x n_splits mode rng = Inr (Some r, Some sem) \<and> 0 \<le> sem
            else split_half x n_splits mode rng = Inr (None, None))"
proof -
  have md: "mode \<in> set allowed_modes" using assms(5) by (auto simp add: allowed_modes_def)
  obtain st where st: "trials x n_splits mode rng = Inr st"
    using trials_result[OF assms(1-3) md assms(6)] by blast
  note res = split_half_result[OF assms st]
  have fin: "finite_samples (r_array st) \<longleftrightarrow> those (r_array st) \<noteq> None"
    by (simp add: finite_samples_def those_None_iff)
  show ?thesis
  proof (cases "those (r_array st)")
    case None
    then show ?thesis using st res(3) fin by simp
  next
    case (Some ws)
    have "0 \<le> sum_list (map (\<lambda>w. (w - spec_mean ws)\<^sup>2) ws)"
      by (rule sum_list_nonneg) auto
    then have "0 \<le> spec_sem ws"
      unfolding spec_sem_def by (intro divide_nonneg_nonneg real_sqrt_ge_zero) simp_all
    then show ?thesis using st res(2)[OF Some] fin Some by simp
  qed
qed

theorem sem_nonnegative_witness:
  "wf_matrix [[2::real, 4], [3, 5]] 2 2 \<and> (2::nat) \<le> 2 \<and> (1::int) \<le> 1 \<and>
   is_permutation 2 [0, 1] \<and>
   (\<exists>r sem. split_half [[2, 4], [3, 5]] 1 ''spearman-brown'' (\<lambda>_. [0, 1]) = Inr (Some r, Some sem)
            \<and> 0 \<le> sem)"
  using sem_nonnegative[of "[[2, 4], [3, 5]]" 2 2 1 "''spearman-brown''" "\<lambda>_. [0, 1]"]
  by (simp add: eval_simps finite_samples_def)

text \<open>
  The claim C8 as first stated gives sem \<ge> 0 for every valid array. The two half-mean
  vectors of the 2 x 2 array below have the correlation -1, the Spearman-Brown
  quotient divides by zero, and the returned sem is not a number (the standard deviation
  of a single infinite sample is nan), so sem \<ge> 0 does not hold.
\<close>

theorem sem_nonnegative_counterexample:
  "split_half [[2, 4], [4, 2]] 1 ''spearman-brown'' (\<lambda>_. [1, 0]) = Inr (None, None)"
  by (simp add: eval_simps)

text \<open>
  C9 (as amended). In a valid call of \<^verbatim>\<open>split_half\<close> with mode 'correlation', every trial
  correlation that is a finite number lies in [-1, 1]; when all of them are finite, so is
  the returned r, and it lies in [-1, 1]; otherwise the returned r is not a finite
  number.
\<close>

theorem correlation_in_range:
  assumes "wf_matrix x M N" and "2 \<le> M" and "2 \<le> N" and "1 \<le> n_splits"
    and "\<forall>j<nat n_splits. is_permutation M (rng j)"
  shows "\<exists>st. trials x n_splits ''correlation'' rng = Inr st \<and>
           (\<forall>i<nat n_splits. \<forall>p. r_array st ! i = Some p \<longrightarrow> - 1 \<le> p \<and> p \<le> 1) \<and>
           (if finite_samples (r_array st)
            then \<exists>r sem. split_half x n_splits ''correlation'' rng = Inr (Some r, sem)
                         \<and> - 1 \<le> r \<and> r \<le> 1
            else split_half x n_splits ''correlation'' rng = Inr (None, None))"
proof -
  have md: "''correlation'' \<in> set allowed_modes" by (simp add: allowed_modes_def)
  have md': "''correlation'' = ''correlation'' \<or> ''correlation'' = ''spearman-brown''" by simp
  from trials_result[OF assms(1-3) md assms(5)]
  obtain st where st: "trials x n_splits ''correlation'' rng = Inr st"
    and arr: "r_array st = map (\<lambda>i. trial_pearson x M N rng i) [0..<nat n_splits]"
    by (auto simp add: trial_sample_def)
  note res = split_half_result[OF assms(1-4) md' assms(5) st]
  have each: "\<forall>i<nat n_splits. \<forall>p. r_array st ! i = Some p \<longrightarrow> - 1 \<le> p \<and> p \<le> 1"
    using trial_pearson_bound by (simp add: arr)
  have fin: "finite_samples (r_array st) \<longleftrightarrow> those (r_array st) \<noteq> None"
    by (simp add: finite_samples_def those_None_iff)
  show ?thesis
  proof (cases "those (r_array st)")
    case None
    then show ?thesis using st each res(3) fin by simp
  next
    case (Some ws)
    have lw: "length ws = nat n_splits" and v: "r_array st = map Some ws"
      using res(2)[OF Some] those_Some_map[OF Some] by simp_all
    have "\<forall>w\<in>set ws. - 1 \<le> w \<and> w \<le> 1"
    proof
      fix w assume "w \<in> set ws"
      then obtain i where "i < length ws" "ws ! i = w" by (auto simp add: in_set_conv_nth)
      then have "i < nat n_splits" "r_array st ! i = Some w" using lw v by simp_all
      then show "- 1 \<le> w \<and> w \<le> 1" using each by blast
    qed
    moreover have "ws \<noteq> []" using lw assms(4) by auto
    ultimately have "- 1 \<le> spec_mean ws \<and> spec_mean ws \<le> 1" by (rule spec_mean_bounds)
    then show ?thesis using st each res(2)[OF Some] fin Some by simp
  qed
qed

theorem correlation_in_range_witness:
  "wf_matrix [[2::real, 4], [4, 3]] 2 2 \<and> (2::nat) \<le> 2 \<and> (1::int) \<le> 1 \<and>
   is_permutation 2 [1, 0] \<and>
   (\<exists>r sem. split_half [[2, 4], [4, 3]] 1 ''correlation'' (\<lambda>_. [1, 0]) = Inr (Some r, sem)
            \<and> - 1 \<le> r \<and> r \<le> 1)"
  using correlation_in_range[of "[[2, 4], [4, 3]]" 2 2 1 "\<lambda>_. [1, 0]"]
  by (simp add: eval_simps finite_samples_def)

text \<open>
  The claim C9 as first stated gives r within [-1, 1] for every valid array. On a constant
  array the half-mean vectors are constant, their correlation is undefined (nan), and
  so is the returned r.
\<close>

theorem correlation_in_range_counterexample:
  "split_half [[1, 1], [1, 1]] 1 ''correlation'' (\<lambda>_. [1, 0]) = Inr (None, None)"
  by (simp add: eval_simps)

text \<open>
  C10. In mode 'spearman-brown' nothing guards the division by 1 + r: in a valid call the
  sample of a trial is a finite number exactly when that trial's correlation r is finite
  and differs from -1, and the returned pair is finite exactly when this holds in every
  trial. On the 2 x 2 array below the only trial has r = -1, and the call returns a pair
  that is not finite.
\<close>

theorem spearman_brown_unguarded:
  assumes "wf_matrix x M N" and "2 \<le> M" and "2 \<le> N" and "1 \<le> n_splits"
    and "\<forall>j<nat n_splits. is_permutation M (rng j)"
  shows "\<exists>st. trials x n_splits ''spearman-brown'' rng = Inr st \<and>
           (\<forall>i<nat n_splits.
              (r_array st ! i \<noteq> None) = (\<exists>p. trial_pearson x M N rng i = Some p \<and> p \<noteq> - 1)) \<and>
           (if \<forall>i<nat n_splits. \<exists>p. trial_pearson x M N rng i = Some p \<and> p \<noteq> - 1
            then \<exists>r sem. split_half x n_splits ''spearman-brown'' rng = Inr (Some r, Some sem)
            else split_half x n_splits ''spearman-brown'' rng = Inr (None, None))"
proof -
  have md: "''spearman-brown'' \<in> set allowed_modes" by (simp add: allowed_modes_def)
  have md': "''spearman-brown'' = ''correlation'' \<or> ''spearman-brown'' = ''spearman-brown''" by simp
  from trials_result[OF assms(1-3) md assms(5)]
  obtain st where st: "trials x n_splits ''spearman-brown'' rng = Inr st"
    and arr: "r_array st = map (\<lambda>i. spearman_brown (trial_pearson x M N rng i)) [0..<nat n_splits]"
    by (auto simp add: trial_sample_def)
  note res = split_half_result[OF assms(1-4) md' assms(5) st]
  have sb: "(spearman_brown q \<noteq> None) = (\<exists>p. q = Some p \<and> p \<noteq> - 1)" for q
    by (cases q) (auto simp add: spearman_brown_def np_div_def)
  have each: "\<forall>i<nat n_splits.
      (r_array st ! i \<noteq> None) = (\<exists>p. trial_pearson x M N rng i = Some p \<and> p \<noteq> - 1)"
  proof (intro allI impI)
    fix i assume "i < nat n_splits"
    then have "r_array st ! i = spearman_brown (trial_pearson x M N rng i)"
      by (simp add: arr)
    then show "(r_array st ! i \<noteq> None) = (\<exists>p. trial_pearson x M N rng i = Some p \<and> p \<noteq> - 1)"
      by (simp only: sb)
  qed
  have "None \<notin> set (r_array st) \<longleftrightarrow> (\<forall>i<nat n_splits. r_array st ! i \<noteq> None)"
    using res(1) by (metis in_set_conv_nth)
  then have all: "those (r_array st) \<noteq> None \<longleftrightarrow>
      (\<forall>i<nat n_splits. \<exists>p. trial_pearson x M N rng i = Some p \<and> p \<noteq> - 1)"
    using each by (simp add: those_None_iff)
  show ?thesis
  proof (cases "those (r_array st)")
    case None
    then show ?thesis using st each res(3) all by auto
  next
    case (Some ws)
    then show ?thesis using st each res(2)[OF Some] all by auto
  qed
qed

theorem spearman_brown_unguarded_witness:
  "wf_matrix [[2::real, 4], [4, 2]] 2 2 \<and> (2::nat) \<le> 2 \<and> (1::int) \<le> 1 \<and>
   is_permutation 2 [1, 0] \<and>
   trial_pearson [[2, 4], [4, 2]] 2 2 (\<lambda>_. [1, 0]) 0 = Some (- 1) \<and>
   split_half [[2, 4], [4, 2]] 1 ''spearman-brown'' (\<lambda>_. [1, 0]) = Inr (None, None)"
proof -
  have wf: "wf_matrix [[2::real, 4], [4, 2::real]] 2 2" by (simp add: wf_matrix_def)
  have p: "\<forall>j<nat 1. is_permutation 2 ((\<lambda>_. [1, 0]) j)"
    by (simp add: is_permutation_def upt_conv_Cons)
  have tp: "trial_pearson [[2, 4], [4, 2]] 2 2 (\<lambda>_. [1, 0]) 0 = Some (- 1)"
    by (simp add: trial_pearson_def trial_labels_def labels0_def shuffle_def select_rows_def
        subject_means_def column_def pearson_coefficient_def np_div_def power2_eq_square
        upt_conv_Cons Let_def)
  have "\<not> (\<forall>i<nat 1. \<exists>q. trial_pearson [[2, 4], [4, 2]] 2 2 (\<lambda>_. [1, 0]) i = Some q \<and> q \<noteq> - 1)"
    using tp by auto
  with spearman_brown_unguarded[OF wf _ _ _ p]
  have "split_half [[2, 4], [4, 2]] 1 ''spearman-brown'' (\<lambda>_. [1, 0]) = Inr (None, None)"
    by auto
  then show ?thesis using wf p tp by simp
qed

end
